theory Spec2Isabelle
  imports Main "HOL-Library.Multiset"
begin

section \<open>The sortable, selectable data table (DataTable.tsx)\<close>

text \<open>
  A shallow embedding of the \<^verbatim>\<open>DataTable\<close> component: the sort state and its click
  handler, the memoised sorted view, the two selection handlers and the table body.
  Arrays of records live in an explicit store, so that copying (\<^verbatim>\<open>[...data]\<close>) and the
  in-place \<^verbatim>\<open>Array.prototype.sort\<close> are visible. Records themselves are never written
  by the component and are plain values.
\<close>

subsection \<open>Values and records\<close>

text \<open>
  Field values are the primitive JavaScript values. A number is an integer or \<^verbatim>\<open>NaN\<close>;
  the infinities and fractions are outside the model, and so are objects, symbols and
  bigints as field values.
\<close>

datatype jsval = Undefined | Null | Bool bool | Num int | NaN | Str string

text \<open>
  The strict equality \<^verbatim>\<open>a === b\<close>: the same value, except that \<^verbatim>\<open>NaN\<close> is not equal to
  itself. \<^verbatim>\<open>a !== b\<close> is its negation.
\<close>

definition strict_eq :: "jsval \<Rightarrow> jsval \<Rightarrow> bool" where
  "strict_eq a b = (a = b \<and> a \<noteq> NaN)"

text \<open>\<^verbatim>\<open>v == null\<close>: true of \<^verbatim>\<open>null\<close> and of \<^verbatim>\<open>undefined\<close>.\<close>

definition nullish :: "jsval \<Rightarrow> bool" where
  "nullish v = (v = Null \<or> v = Undefined)"

text \<open>\<^verbatim>\<open>typeof v === 'string'\<close>.\<close>

fun is_string :: "jsval \<Rightarrow> bool" where
  "is_string (Str s) = True"
| "is_string v = False"

text \<open>
  A record (\<^verbatim>\<open>T extends Record<string, any>\<close>) is a list of fields; reading a field
  that is not there gives \<^verbatim>\<open>undefined\<close>.
\<close>

type_synonym jsrecord = "(string \<times> jsval) list"

definition field :: "jsrecord \<Rightarrow> string \<Rightarrow> jsval" where
  "field r k = (case map_of r k of None \<Rightarrow> Undefined | Some v \<Rightarrow> v)"

subsection \<open>The store of arrays\<close>

text \<open>
  An array is referred to by its address in the store; the store is the list of the arrays
  allocated so far. \<open>spread\<close> is \<^verbatim>\<open>[...a]\<close>: a fresh array with the elements of \<open>a\<close>.
\<close>

type_synonym ref = nat
type_synonym heap = "jsrecord list list"

definition alloc :: "heap \<Rightarrow> jsrecord list \<Rightarrow> heap \<times> ref" where
  "alloc h xs = (h @ [xs], length h)"

definition spread :: "heap \<Rightarrow> ref \<Rightarrow> heap \<times> ref" where
  "spread h a = alloc h (h ! a)"

subsection \<open>Array.prototype.sort\<close>

text \<open>
  The sort of the platform, with a comparator returning a number. The standard (ECMAScript,
  \<^verbatim>\<open>Array.prototype.sort\<close>) fixes the result only for a comparator that is a consistent
  comparison function for the elements: every element compares as 0 with itself, comparing
  as 0 is symmetric and transitive, and so are "before" (a negative result) and "after" (a
  positive one) transitive. Then the result is the stable sorted order (ES2019). Otherwise
  the order is implementation-defined: it is whatever the engine at hand produces, and the
  engine is a parameter of the model. Data arrays hold records, so the special treatment of
  \<^verbatim>\<open>undefined\<close> elements and holes does not arise.
\<close>

definition consistent :: "('a \<Rightarrow> 'a \<Rightarrow> int) \<Rightarrow> 'a list \<Rightarrow> bool" where
  "consistent cmp xs =
     ((\<forall>a\<in>set xs. cmp a a = 0)
      \<and> (\<forall>a\<in>set xs. \<forall>b\<in>set xs. cmp a b = 0 \<longrightarrow> cmp b a = 0)
      \<and> (\<forall>a\<in>set xs. \<forall>b\<in>set xs. \<forall>c\<in>set xs. cmp a b = 0 \<and> cmp b c = 0 \<longrightarrow> cmp a c = 0)
      \<and> (\<forall>a\<in>set xs. \<forall>b\<in>set xs. \<forall>c\<in>set xs. cmp a b < 0 \<and> cmp b c < 0 \<longrightarrow> cmp a c < 0)
      \<and> (\<forall>a\<in>set xs. \<forall>b\<in>set xs. \<forall>c\<in>set xs. 0 < cmp a b \<and> 0 < cmp b c \<longrightarrow> 0 < cmp a c))"

text \<open>The stable sorted order, by insertion from the right.\<close>

fun insert_by :: "('a \<Rightarrow> 'a \<Rightarrow> int) \<Rightarrow> 'a \<Rightarrow> 'a list \<Rightarrow> 'a list" where
  "insert_by cmp x [] = [x]"
| "insert_by cmp x (y # ys) =
     (if cmp x y \<le> 0 then x # y # ys else y # insert_by cmp x ys)"

definition stable_insertion :: "('a \<Rightarrow> 'a \<Rightarrow> int) \<Rightarrow> 'a list \<Rightarrow> 'a list" where
  "stable_insertion cmp xs = foldr (insert_by cmp) xs []"

definition array_sort ::
  "(('a \<Rightarrow> 'a \<Rightarrow> int) \<Rightarrow> 'a list \<Rightarrow> 'a list) \<Rightarrow> ('a \<Rightarrow> 'a \<Rightarrow> int) \<Rightarrow> 'a list \<Rightarrow> 'a list" where
  "array_sort engine cmp xs =
     (if consistent cmp xs then stable_insertion cmp xs else engine cmp xs)"

text \<open>\<^verbatim>\<open>a.sort(cmp)\<close> sorts the array at \<open>a\<close> in place and returns \<open>a\<close>.\<close>

definition sort_in_place ::
  "((jsrecord \<Rightarrow> jsrecord \<Rightarrow> int) \<Rightarrow> jsrecord list \<Rightarrow> jsrecord list) \<Rightarrow> heap \<Rightarrow> ref
     \<Rightarrow> (jsrecord \<Rightarrow> jsrecord \<Rightarrow> int) \<Rightarrow> heap \<times> ref" where
  "sort_in_place engine h a cmp = (h[a := array_sort engine cmp (h ! a)], a)"

subsection \<open>Columns, props and the sort state\<close>

record Column =
  key :: string
  title :: string
  dataIndex :: string
  sortable :: "bool option"
  render :: "(jsval \<Rightarrow> jsrecord \<Rightarrow> nat \<Rightarrow> string) option"
  width :: "string option"

datatype RowKey = KeyField string | KeyFn "jsrecord \<Rightarrow> jsval"

text \<open>
  The props after defaulting. \<open>data\<close> and \<open>selectedRows\<close> are arrays in the store; the two
  callbacks are optional and receive the array (and the row) they are called with.
\<close>

record 'e DataTableProps =
  data :: ref
  columns :: "Column list"
  loading :: bool
  loadingText :: string
  emptyText :: string
  selectable :: bool
  selectedRows :: ref
  onRowSelect :: "(ref \<Rightarrow> 'e) option"
  onRowClick :: "(jsrecord \<Rightarrow> nat \<Rightarrow> 'e) option"
  className :: string
  rowKey :: RowKey

datatype SortOrder = Asc | Desc

record SortState =
  sortKey :: "string option"
  sortOrder :: "SortOrder option"

text \<open>\<^verbatim>\<open>useState<SortState>({ key: null, order: null })\<close>.\<close>

definition initialSortState :: SortState where
  "initialSortState = \<lparr>sortKey = None, sortOrder = None\<rparr>"

subsection \<open>Row keys\<close>

text \<open>\<^verbatim>\<open>record[rowKey] ?? index\<close>, or the key function applied to the record.\<close>

definition getRowKey :: "RowKey \<Rightarrow> jsrecord \<Rightarrow> nat \<Rightarrow> jsval" where
  "getRowKey rk r index =
     (case rk of
        KeyFn f \<Rightarrow> f r
      | KeyField k \<Rightarrow> (if nullish (field r k) then Num (int index) else field r k))"

subsection \<open>The sorted view\<close>

text \<open>
  The comparator handed to the sort. \<open>localeCompare\<close> (the collation of the host locale)
  and \<open>lt\<close> (the operator \<^verbatim>\<open><\<close> on values that are neither nullish nor both
  strings) belong to the platform and are parameters.
\<close>

definition comparator ::
  "(string \<Rightarrow> string \<Rightarrow> int) \<Rightarrow> (jsval \<Rightarrow> jsval \<Rightarrow> bool) \<Rightarrow> Column \<Rightarrow> SortOrder option
     \<Rightarrow> jsrecord \<Rightarrow> jsrecord \<Rightarrow> int" where
  "comparator localeCompare lt column ord a b =
     (let aValue = field a (dataIndex column);
          bValue = field b (dataIndex column)
      in if strict_eq aValue bValue then 0
         else
           let comparison =
                 (if nullish aValue then - 1
                  else if nullish bValue then 1
                  else (case (aValue, bValue) of
                          (Str s, Str t) \<Rightarrow> localeCompare s t
                        | _ \<Rightarrow> (if lt aValue bValue then - 1 else 1)))
           in if ord = Some Asc then comparison else - comparison)"

text \<open>
  \<^verbatim>\<open>!sortState.key\<close> holds of \<^verbatim>\<open>null\<close> and of the empty string; \<^verbatim>\<open>!sortState.order\<close>
  holds of \<^verbatim>\<open>null\<close> only, both orders being non-empty strings.
\<close>

definition falsy_key :: "string option \<Rightarrow> bool" where
  "falsy_key k = (k = None \<or> k = Some [])"

definition sortedData ::
  "((jsrecord \<Rightarrow> jsrecord \<Rightarrow> int) \<Rightarrow> jsrecord list \<Rightarrow> jsrecord list)
     \<Rightarrow> (string \<Rightarrow> string \<Rightarrow> int) \<Rightarrow> (jsval \<Rightarrow> jsval \<Rightarrow> bool) \<Rightarrow> heap \<Rightarrow> 'e DataTableProps
     \<Rightarrow> SortState \<Rightarrow> heap \<times> ref" where
  "sortedData engine localeCompare lt h p st =
     (if falsy_key (sortKey st) \<or> sortOrder st = None then (h, data p)
      else
        (case find (\<lambda>col. Some (key col) = sortKey st) (columns p) of
           None \<Rightarrow> (h, data p)
         | Some column \<Rightarrow>
             (let (h1, copy) = spread h (data p)
              in sort_in_place engine h1 copy
                   (comparator localeCompare lt column (sortOrder st)))))"

text \<open>The sequence of records the body shows: the contents of the sorted view.\<close>

definition displayed ::
  "((jsrecord \<Rightarrow> jsrecord \<Rightarrow> int) \<Rightarrow> jsrecord list \<Rightarrow> jsrecord list)
     \<Rightarrow> (string \<Rightarrow> string \<Rightarrow> int) \<Rightarrow> (jsval \<Rightarrow> jsval \<Rightarrow> bool) \<Rightarrow> heap \<Rightarrow> 'e DataTableProps
     \<Rightarrow> SortState \<Rightarrow> jsrecord list" where
  "displayed engine localeCompare lt h p st =
     (let (h', r) = sortedData engine localeCompare lt h p st in h' ! r)"

subsection \<open>Header click\<close>

text \<open>
  \<open>handleSort column prev\<close> is the sort state after a click on the header of \<open>column\<close> in
  state \<open>prev\<close>; a column that is not sortable makes no state update.
\<close>

definition handleSort :: "Column \<Rightarrow> SortState \<Rightarrow> SortState" where
  "handleSort column prev =
     (if sortable column \<noteq> Some True then prev
      else if sortKey prev = Some (key column) then
        (let nextOrder =
               (if sortOrder prev = Some Asc then Some Desc
                else if sortOrder prev = Some Desc then None
                else Some Asc)
         in \<lparr>sortKey = (if nextOrder \<noteq> None then Some (key column) else None),
             sortOrder = nextOrder\<rparr>)
      else \<lparr>sortKey = Some (key column), sortOrder = Some Asc\<rparr>)"

subsection \<open>Selection\<close>

text \<open>
  Both handlers return the store and what the call of \<^verbatim>\<open>onRowSelect\<close> yields, \<open>None\<close>
  when there is no callback and nothing is emitted.
\<close>

definition handleRowSelect ::
  "heap \<Rightarrow> 'e DataTableProps \<Rightarrow> jsrecord \<Rightarrow> bool \<Rightarrow> heap \<times> 'e option" where
  "handleRowSelect h p r checked =
     (case onRowSelect p of
        None \<Rightarrow> (h, None)
      | Some emit \<Rightarrow>
          (let recordKey = getRowKey (rowKey p) r 0;
               (h1, newSelectedRows) =
                 (if checked then alloc h (h ! selectedRows p @ [r])
                  else alloc h (filter (\<lambda>row. \<not> strict_eq (getRowKey (rowKey p) row 0) recordKey)
                                  (h ! selectedRows p)))
           in (h1, Some (emit newSelectedRows))))"

definition handleSelectAll :: "heap \<Rightarrow> 'e DataTableProps \<Rightarrow> bool \<Rightarrow> heap \<times> 'e option" where
  "handleSelectAll h p checked =
     (case onRowSelect p of
        None \<Rightarrow> (h, None)
      | Some emit \<Rightarrow>
          (if checked then (let (h1, a) = spread h (data p) in (h1, Some (emit a)))
           else (let (h1, a) = alloc h [] in (h1, Some (emit a)))))"

definition isRowSelected :: "heap \<Rightarrow> 'e DataTableProps \<Rightarrow> jsrecord \<Rightarrow> bool" where
  "isRowSelected h p r =
     (let recordKey = getRowKey (rowKey p) r 0
      in list_ex (\<lambda>row. strict_eq (getRowKey (rowKey p) row 0) recordKey) (h ! selectedRows p))"

definition isAllSelected :: "heap \<Rightarrow> 'e DataTableProps \<Rightarrow> bool" where
  "isAllSelected h p =
     (length (h ! data p) > 0 \<and> length (h ! selectedRows p) = length (h ! data p))"

definition isIndeterminate :: "heap \<Rightarrow> 'e DataTableProps \<Rightarrow> bool" where
  "isIndeterminate h p =
     (length (h ! selectedRows p) > 0 \<and> length (h ! selectedRows p) < length (h ! data p))"

subsection \<open>The table body\<close>

text \<open>
  The markup of the body, reduced to its rows and cells: a cell either spans several
  columns (\<^verbatim>\<open>colSpan\<close>) or is a plain cell; a row carries its React key when it has one.
\<close>

datatype content =
    Spinner string
  | Message string
  | SkeletonBox
  | SkeletonBar
  | Checkbox bool
  | CellText string

datatype cell = Cell content | SpanCell nat content

datatype tr = Tr "jsval option" "cell list"

fun cells :: "tr \<Rightarrow> cell list" where
  "cells (Tr k cs) = cs"

text \<open>\<^verbatim>\<open>String(v)\<close> on the values of the model.\<close>

fun digit_chars :: "nat \<Rightarrow> string" where
  "digit_chars n =
     (if n < 10 then [''0123456789'' ! n]
      else digit_chars (n div 10) @ [''0123456789'' ! (n mod 10)])"

fun String :: "jsval \<Rightarrow> string" where
  "String Undefined = ''undefined''"
| "String Null = ''null''"
| "String (Bool b) = (if b then ''true'' else ''false'')"
| "String (Num n) = (if n < 0 then CHR ''-'' # digit_chars (nat (- n)) else digit_chars (nat n))"
| "String NaN = ''NaN''"
| "String (Str s) = s"

text \<open>
  The component \<^verbatim>\<open>LoadingSkeleton\<close>: three rows, each with a box when the table is
  selectable and a bar per column.
\<close>

definition LoadingSkeleton :: "'e DataTableProps \<Rightarrow> tr list" where
  "LoadingSkeleton p =
     map (\<lambda>index. Tr (Some (Num (int index)))
                    ((if selectable p then [Cell SkeletonBox] else [])
                     @ map (\<lambda>column. Cell SkeletonBar) (columns p)))
         [0..<3]"

text \<open>The children of \<^verbatim>\<open><tbody>\<close> in the markup the component returns.\<close>

definition tbody ::
  "((jsrecord \<Rightarrow> jsrecord \<Rightarrow> int) \<Rightarrow> jsrecord list \<Rightarrow> jsrecord list)
     \<Rightarrow> (string \<Rightarrow> string \<Rightarrow> int) \<Rightarrow> (jsval \<Rightarrow> jsval \<Rightarrow> bool) \<Rightarrow> heap \<Rightarrow> 'e DataTableProps
     \<Rightarrow> SortState \<Rightarrow> tr list" where
  "tbody engine localeCompare lt h p st =
     (let (h', sorted) = sortedData engine localeCompare lt h p st;
          span = length (columns p) + (if selectable p then 1 else 0)
      in if loading p then [Tr None [SpanCell span (Spinner (loadingText p))]]
         else if length (h' ! sorted) = 0 then [Tr None [SpanCell span (Message (emptyText p))]]
         else
           map (\<lambda>(index, r).
                  Tr (Some (getRowKey (rowKey p) r index))
                     ((if selectable p then [Cell (Checkbox (isRowSelected h' p r))] else [])
                      @ map (\<lambda>column.
                               Cell (CellText
                                 (case render column of
                                    Some f \<Rightarrow> f (field r (dataIndex column)) r index
                                  | None \<Rightarrow>
                                      (let v = field r (dataIndex column)
                                       in String (if nullish v then Str [] else v)))))
                            (columns p)))
               (enumerate 0 (h' ! sorted)))"

subsection \<open>Platform functions for instances\<close>

text \<open>
  The theorems below hold for every engine, every \<open>localeCompare\<close> and every \<open>lt\<close>.
  Instances need concrete ones. The engine of the instances is \<open>stable_insertion\<close>, which
  sorts by insertion whatever the comparator. \<open>js_lessThan\<close> is the operator \<^verbatim>\<open><\<close> on the values of the model:
  two strings compare by code units, everything else through \<^verbatim>\<open>ToNumber\<close>, where
  \<^verbatim>\<open>undefined\<close> and a string that is not a number give \<^verbatim>\<open>NaN\<close> (here \<open>None\<close>) and any
  comparison with \<^verbatim>\<open>NaN\<close> is false. Of the numeric strings only signed decimal integers,
  with white space around them, are read; the other notations are not used in any instance.
  \<open>codeunit_compare\<close> orders strings by code units, which is what \<^verbatim>\<open>localeCompare\<close>
  gives on the words of lower-case ASCII letters used in the instances.
\<close>

fun codeunit_less :: "string \<Rightarrow> string \<Rightarrow> bool" where
  "codeunit_less [] [] = False"
| "codeunit_less [] (d # t) = True"
| "codeunit_less (c # s) [] = False"
| "codeunit_less (c # s) (d # t) =
     (if c = d then codeunit_less s t else (of_char c :: nat) < of_char d)"

definition codeunit_compare :: "string \<Rightarrow> string \<Rightarrow> int" where
  "codeunit_compare s t = (if s = t then 0 else if codeunit_less s t then - 1 else 1)"

definition digit_of :: "char \<Rightarrow> nat option" where
  "digit_of c = map_of (zip ''0123456789'' [0, 1, 2, 3, 4, 5, 6, 7, 8, 9]) c"

fun digits_value :: "string \<Rightarrow> nat \<Rightarrow> nat option" where
  "digits_value [] acc = Some acc"
| "digits_value (c # cs) acc =
     (case digit_of c of None \<Rightarrow> None | Some d \<Rightarrow> digits_value cs (10 * acc + d))"

definition unsigned_value :: "string \<Rightarrow> nat option" where
  "unsigned_value s = (if s = [] then None else digits_value s 0)"

definition is_space :: "char \<Rightarrow> bool" where
  "is_space c = (of_char c \<in> {9, 10, 11, 12, 13, 32 :: nat})"

definition trim :: "string \<Rightarrow> string" where
  "trim s = rev (dropWhile is_space (rev (dropWhile is_space s)))"

definition StringToNumber :: "string \<Rightarrow> int option" where
  "StringToNumber s =
     (case trim s of
        [] \<Rightarrow> Some 0
      | c # cs \<Rightarrow>
          (if c = CHR ''-'' then map_option (\<lambda>n. - int n) (unsigned_value cs)
           else if c = CHR ''+'' then map_option int (unsigned_value cs)
           else map_option int (unsigned_value (c # cs))))"

fun ToNumber :: "jsval \<Rightarrow> int option" where
  "ToNumber Undefined = None"
| "ToNumber Null = Some 0"
| "ToNumber (Bool b) = Some (if b then 1 else 0)"
| "ToNumber (Num n) = Some n"
| "ToNumber NaN = None"
| "ToNumber (Str s) = StringToNumber s"

definition js_lessThan :: "jsval \<Rightarrow> jsval \<Rightarrow> bool" where
  "js_lessThan a b =
     (case (a, b) of
        (Str s, Str t) \<Rightarrow> codeunit_less s t
      | _ \<Rightarrow> (case (ToNumber a, ToNumber b) of
                (Some x, Some y) \<Rightarrow> x < y
              | _ \<Rightarrow> False))"

subsection \<open>The sort-state invariant and comparators that order\<close>

text \<open>The key is absent exactly when the order is.\<close>

definition sort_invariant :: "SortState \<Rightarrow> bool" where
  "sort_invariant st = ((sortKey st = None) = (sortOrder st = None))"

text \<open>
  A comparator has no ties on a list when the list has no element twice and two different
  elements never compare as 0.
\<close>

definition no_ties :: "('a \<Rightarrow> 'a \<Rightarrow> int) \<Rightarrow> 'a list \<Rightarrow> bool" where
  "no_ties cmp xs = (distinct xs \<and> (\<forall>a\<in>set xs. \<forall>b\<in>set xs. a \<noteq> b \<longrightarrow> cmp a b \<noteq> 0))"

text \<open>
  In a list of records, those whose field \<open>d\<close> is nullish come first (last): no record with
  a defined value stands before (after) one with a nullish value.
\<close>

definition nullish_first :: "string \<Rightarrow> jsrecord list \<Rightarrow> bool" where
  "nullish_first d ys = sorted_wrt (\<lambda>r s. \<not> (\<not> nullish (field r d) \<and> nullish (field s d))) ys"

definition nullish_last :: "string \<Rightarrow> jsrecord list \<Rightarrow> bool" where
  "nullish_last d ys = sorted_wrt (\<lambda>r s. \<not> (nullish (field r d) \<and> \<not> nullish (field s d))) ys"

text \<open>
  A column of numbers and \<^verbatim>\<open>null\<close>: every record has an integer or \<^verbatim>\<open>null\<close> in field
  \<open>d\<close>. On such a column the comparator is consistent when \<^verbatim>\<open><\<close> orders the numbers.
\<close>

fun number_or_null :: "jsval \<Rightarrow> bool" where
  "number_or_null (Num n) = True"
| "number_or_null Null = True"
| "number_or_null v = False"

definition numeric_column :: "string \<Rightarrow> jsrecord list \<Rightarrow> bool" where
  "numeric_column d xs = list_all (\<lambda>r. number_or_null (field r d)) xs"

definition orders_numbers :: "(jsval \<Rightarrow> jsval \<Rightarrow> bool) \<Rightarrow> bool" where
  "orders_numbers lt = (\<forall>m n. lt (Num m) (Num n) = (m < n))"

subsection \<open>The comparison as the specification words it\<close>

text \<open>
  The value-level comparison read off the specification: equal values give 0; otherwise, if
  only \<open>a\<close> is nullish the result is -1, if only \<open>b\<close> is nullish it is +1, two strings
  compare by the collation, and everything else by \<^verbatim>\<open><\<close>; the result is negated for the
  descending order.
\<close>

definition spec_comparison ::
  "(string \<Rightarrow> string \<Rightarrow> int) \<Rightarrow> (jsval \<Rightarrow> jsval \<Rightarrow> bool) \<Rightarrow> SortOrder \<Rightarrow> jsval \<Rightarrow> jsval \<Rightarrow> int" where
  "spec_comparison localeCompare lt ord a b =
     (if strict_eq a b then 0
      else
        let c = (if nullish a \<and> \<not> nullish b then - 1
                 else if nullish b \<and> \<not> nullish a then 1
                 else (case (a, b) of
                         (Str s, Str t) \<Rightarrow> localeCompare s t
                       | _ \<Rightarrow> (if lt a b then - 1 else 1)))
        in if ord = Desc then - c else c)"

subsection \<open>An example table\<close>

definition nameColumn :: Column where
  "nameColumn = \<lparr>key = ''name'', title = ''Name'', dataIndex = ''name'',
     sortable = Some True, render = None, width = None\<rparr>"

definition ageColumn :: Column where
  "ageColumn = \<lparr>key = ''age'', title = ''Age'', dataIndex = ''age'',
     sortable = Some True, render = None, width = None\<rparr>"

definition emailColumn :: Column where
  "emailColumn = \<lparr>key = ''email'', title = ''Email'', dataIndex = ''email'',
     sortable = None, render = None, width = None\<rparr>"

text \<open>A sortable column whose key is the empty string.\<close>

definition blankColumn :: Column where
  "blankColumn = \<lparr>key = [], title = ''Age'', dataIndex = ''age'',
     sortable = Some True, render = None, width = None\<rparr>"

definition bob :: jsrecord where
  "bob = [(''id'', Num 1), (''name'', Str ''bob''), (''age'', Num 31)]"

definition ana :: jsrecord where
  "ana = [(''id'', Num 2), (''name'', Str ''ana''), (''age'', Num 27)]"

definition cy :: jsrecord where
  "cy = [(''id'', Num 3), (''name'', Str ''cy''), (''age'', Null)]"

text \<open>A record without an age, and one whose id is \<^verbatim>\<open>NaN\<close>.\<close>

definition dee :: jsrecord where
  "dee = [(''id'', Num 4), (''name'', Str ''dee'')]"


text \<open>The store: the data array at address 0, the selection (only \<open>ana\<close>) at address 1.\<close>

definition example_heap :: heap where
  "example_heap = [[bob, ana, cy], [ana]]"

definition example_props :: "ref DataTableProps" where
  "example_props = \<lparr>data = 0, columns = [nameColumn, ageColumn, emailColumn],
     loading = False, loadingText = ''Loading...'', emptyText = ''No data available'',
     selectable = True, selectedRows = 1, onRowSelect = Some (\<lambda>a. a), onRowClick = None,
     className = [], rowKey = KeyField ''id''\<rparr>"

section \<open>Properties\<close>

subsection \<open>The contents of the sorted view\<close>

text \<open>
  For a consistent comparator the sort is the stable insertion, whatever the engine; and the
  engine of the instances is the stable insertion for every comparator.
\<close>

lemma array_sort_consistent: "consistent cmp xs \<Longrightarrow> array_sort engine cmp xs = stable_insertion cmp xs"
  by (simp add: array_sort_def)

lemma array_sort_stable_insertion: "array_sort stable_insertion cmp xs = stable_insertion cmp xs"
  by (simp add: array_sort_def)

text \<open>
  What the body shows depends on the store only through the contents of the data array: it
  is that array itself while no sort is active or the active key names no column, and the
  sorted copy otherwise.
\<close>

lemma displayed_eq:
  "displayed eng lc lt h p st =
     (if falsy_key (sortKey st) \<or> sortOrder st = None then h ! data p
      else (case find (\<lambda>col. Some (key col) = sortKey st) (columns p) of
              None \<Rightarrow> h ! data p
            | Some column \<Rightarrow>
                array_sort eng (comparator lc lt column (sortOrder st)) (h ! data p)))"
  by (simp add: displayed_def sortedData_def spread_def alloc_def sort_in_place_def
      split: option.splits)

subsection \<open>Header clicks\<close>

text \<open>
  Claim C2. A click on a sortable column that is not the active one (also when none is
  active) makes it the active column in ascending order. A click on the active column turns
  ascending into descending, and descending into no order with the key cleared. A click on
  a column that is not sortable leaves the sort state as it is. (The fourth case, an active
  key without an order, does not arise from clicks and is listed for completeness.)
\<close>

theorem handleSort_transitions:
  "(sortable c = Some True \<and> sortKey st \<noteq> Some (key c) \<longrightarrow>
      handleSort c st = \<lparr>sortKey = Some (key c), sortOrder = Some Asc\<rparr>)
   \<and> (sortable c = Some True \<and> sortKey st = Some (key c) \<and> sortOrder st = Some Asc \<longrightarrow>
      handleSort c st = \<lparr>sortKey = Some (key c), sortOrder = Some Desc\<rparr>)
   \<and> (sortable c = Some True \<and> sortKey st = Some (key c) \<and> sortOrder st = Some Desc \<longrightarrow>
      handleSort c st = \<lparr>sortKey = None, sortOrder = None\<rparr>)
   \<and> (sortable c = Some True \<and> sortKey st = Some (key c) \<and> sortOrder st = None \<longrightarrow>
      handleSort c st = \<lparr>sortKey = Some (key c), sortOrder = Some Asc\<rparr>)
   \<and> (sortable c \<noteq> Some True \<longrightarrow> handleSort c st = st)"
  by (simp add: handleSort_def)

theorem handleSort_transitions_witness:
  "handleSort nameColumn initialSortState = \<lparr>sortKey = Some ''name'', sortOrder = Some Asc\<rparr>
   \<and> handleSort ageColumn \<lparr>sortKey = Some ''name'', sortOrder = Some Desc\<rparr>
       = \<lparr>sortKey = Some ''age'', sortOrder = Some Asc\<rparr>
   \<and> handleSort nameColumn \<lparr>sortKey = Some ''name'', sortOrder = Some Asc\<rparr>
       = \<lparr>sortKey = Some ''name'', sortOrder = Some Desc\<rparr>
   \<and> handleSort nameColumn \<lparr>sortKey = Some ''name'', sortOrder = Some Desc\<rparr>
       = \<lparr>sortKey = None, sortOrder = None\<rparr>
   \<and> handleSort emailColumn \<lparr>sortKey = Some ''name'', sortOrder = Some Desc\<rparr>
       = \<lparr>sortKey = Some ''name'', sortOrder = Some Desc\<rparr>"
  using handleSort_transitions [of nameColumn initialSortState]
    handleSort_transitions [of ageColumn "\<lparr>sortKey = Some ''name'', sortOrder = Some Desc\<rparr>"]
    handleSort_transitions [of nameColumn "\<lparr>sortKey = Some ''name'', sortOrder = Some Asc\<rparr>"]
    handleSort_transitions [of nameColumn "\<lparr>sortKey = Some ''name'', sortOrder = Some Desc\<rparr>"]
    handleSort_transitions [of emailColumn "\<lparr>sortKey = Some ''name'', sortOrder = Some Desc\<rparr>"]
  by (simp add: nameColumn_def ageColumn_def emailColumn_def initialSortState_def)

text \<open>
  Claim C9. The key is absent exactly when the order is absent: this holds of the initial
  sort state and every header click preserves it.
\<close>

theorem sort_invariant_preserved:
  "sort_invariant initialSortState \<and> (sort_invariant st \<longrightarrow> sort_invariant (handleSort c st))"
  by (simp add: sort_invariant_def initialSortState_def handleSort_def)

theorem sort_invariant_preserved_witness:
  "sort_invariant initialSortState
   \<and> sort_invariant \<lparr>sortKey = Some ''name'', sortOrder = Some Desc\<rparr>
   \<and> sort_invariant (handleSort nameColumn \<lparr>sortKey = Some ''name'', sortOrder = Some Desc\<rparr>)"
proof -
  have inv: "sort_invariant \<lparr>sortKey = Some ''name'', sortOrder = Some Desc\<rparr>"
    by (simp add: sort_invariant_def)
  with sort_invariant_preserved
    [of "\<lparr>sortKey = Some ''name'', sortOrder = Some Desc\<rparr>" nameColumn]
  show ?thesis by simp
qed

text \<open>
  Claim C5. From a sort state in which a sortable column is not the active one, three
  clicks on its header in a row lead back to the state without a sort, where the sorted
  view is the data array itself and the body shows the data in its input order.
\<close>

theorem three_clicks_restore:
  assumes "sortable c = Some True" and "sortKey st \<noteq> Some (key c)"
  shows "handleSort c (handleSort c (handleSort c st)) = initialSortState
     \<and> sortedData eng lc lt h p (handleSort c (handleSort c (handleSort c st))) = (h, data p)
     \<and> displayed eng lc lt h p (handleSort c (handleSort c (handleSort c st))) = h ! data p"
proof -
  from assms have "handleSort c (handleSort c (handleSort c st)) = initialSortState"
    by (simp add: handleSort_def initialSortState_def)
  then show ?thesis
    by (simp add: displayed_def sortedData_def falsy_key_def initialSortState_def)
qed

theorem three_clicks_restore_witness:
  "sortable ageColumn = Some True
   \<and> sortKey \<lparr>sortKey = Some ''name'', sortOrder = Some Desc\<rparr> \<noteq> Some (key ageColumn)
   \<and> handleSort ageColumn (handleSort ageColumn (handleSort ageColumn
        \<lparr>sortKey = Some ''name'', sortOrder = Some Desc\<rparr>)) = initialSortState
   \<and> displayed stable_insertion codeunit_compare js_lessThan example_heap example_props
        (handleSort ageColumn (handleSort ageColumn (handleSort ageColumn
           \<lparr>sortKey = Some ''name'', sortOrder = Some Desc\<rparr>))) = [bob, ana, cy]"
proof -
  have s: "sortable ageColumn = Some True"
    by (simp add: ageColumn_def)
  have k: "sortKey \<lparr>sortKey = Some ''name'', sortOrder = Some Desc\<rparr> \<noteq> Some (key ageColumn)"
    by (simp add: ageColumn_def)
  have v: "example_heap ! data example_props = [bob, ana, cy]"
    by (simp add: example_props_def example_heap_def)
  from three_clicks_restore [OF s k, of stable_insertion codeunit_compare js_lessThan example_heap example_props]
  show ?thesis using s k unfolding v [symmetric]
    by blast
qed

subsection \<open>A sort key that names no column\<close>

text \<open>
  Claim C10. When the active key of the sort state is the key of no column in the column
  list, the sorted view is the data array itself, unchanged and unsorted; nothing fails.
\<close>

theorem unknown_column_unsorted:
  assumes "sortKey st = Some k" and "\<forall>c\<in>set (columns p). key c \<noteq> k"
  shows "sortedData eng lc lt h p st = (h, data p) \<and> displayed eng lc lt h p st = h ! data p"
proof -
  from assms have "find (\<lambda>col. Some (key col) = sortKey st) (columns p) = None"
    by (simp add: find_None_iff)
  then show ?thesis
    by (simp add: displayed_def sortedData_def)
qed

theorem unknown_column_unsorted_witness:
  "sortKey \<lparr>sortKey = Some ''role'', sortOrder = Some Desc\<rparr> = Some ''role''
   \<and> list_all (\<lambda>c. key c \<noteq> ''role'') (columns example_props)
   \<and> sortedData stable_insertion codeunit_compare js_lessThan example_heap example_props
        \<lparr>sortKey = Some ''role'', sortOrder = Some Desc\<rparr> = (example_heap, 0)
   \<and> displayed stable_insertion codeunit_compare js_lessThan example_heap example_props
        \<lparr>sortKey = Some ''role'', sortOrder = Some Desc\<rparr> = [bob, ana, cy]"
proof -
  have k: "sortKey \<lparr>sortKey = Some ''role'', sortOrder = Some Desc\<rparr> = Some ''role''"
    by simp
  have cols: "\<forall>c\<in>set (columns example_props). key c \<noteq> ''role''"
    by (simp add: example_props_def nameColumn_def ageColumn_def emailColumn_def)
  from unknown_column_unsorted [OF k cols, of stable_insertion codeunit_compare js_lessThan example_heap]
  show ?thesis using cols
    by (simp add: example_props_def example_heap_def list_all_iff)
qed

subsection \<open>The body while loading\<close>

text \<open>
  The component \<^verbatim>\<open>LoadingSkeleton\<close> gives three rows, each with one cell per column and
  one more when the table is selectable.
\<close>

lemma LoadingSkeleton_shape:
  "length (LoadingSkeleton p) = 3
   \<and> list_all (\<lambda>row. length (cells row) = length (columns p) + (if selectable p then 1 else 0))
        (LoadingSkeleton p)"
  by (simp add: LoadingSkeleton_def list_all_iff)

text \<open>
  Claim C1, as stated, fails: with \<^verbatim>\<open>loading\<close> set the body of the example table is one
  row, not three, and it is not the rows of \<^verbatim>\<open>LoadingSkeleton\<close>, which the component
  defines and never renders.
\<close>

theorem loading_body_counterexample:
  "tbody stable_insertion codeunit_compare js_lessThan example_heap (example_props\<lparr>loading := True\<rparr>)
       initialSortState
     = [Tr None [SpanCell 4 (Spinner ''Loading...'')]]
   \<and> length (tbody stable_insertion codeunit_compare js_lessThan example_heap (example_props\<lparr>loading := True\<rparr>)
        initialSortState) \<noteq> 3
   \<and> tbody stable_insertion codeunit_compare js_lessThan example_heap (example_props\<lparr>loading := True\<rparr>)
        initialSortState
     \<noteq> LoadingSkeleton (example_props\<lparr>loading := True\<rparr>)"
  by (simp add: tbody_def sortedData_def falsy_key_def initialSortState_def example_props_def
      LoadingSkeleton_def numeral_3_eq_3)

text \<open>
  Claim C1, amended. While \<^verbatim>\<open>loading\<close> is set the body is exactly one row with a single
  cell that spans all columns (one more when the table is selectable) and holds the spinner
  and \<^verbatim>\<open>loadingText\<close>, whatever the data, the selection and the sort state are.
\<close>

theorem loading_body_single_row:
  assumes "loading p"
  shows "tbody eng lc lt h p st =
     [Tr None [SpanCell (length (columns p) + (if selectable p then 1 else 0))
                 (Spinner (loadingText p))]]"
  using assms by (simp add: tbody_def split: prod.splits)

theorem loading_body_single_row_witness:
  "loading (example_props\<lparr>loading := True\<rparr>)
   \<and> tbody stable_insertion codeunit_compare js_lessThan example_heap (example_props\<lparr>loading := True\<rparr>)
        \<lparr>sortKey = Some ''age'', sortOrder = Some Asc\<rparr>
     = [Tr None [SpanCell 4 (Spinner ''Loading...'')]]"
proof -
  have l: "loading (example_props\<lparr>loading := True\<rparr>)"
    by simp
  from loading_body_single_row [OF l, of stable_insertion codeunit_compare js_lessThan example_heap
      "\<lparr>sortKey = Some ''age'', sortOrder = Some Asc\<rparr>"]
  show ?thesis
    by (simp add: example_props_def)
qed

subsection \<open>The stable insertion\<close>

lemma set_insert_by: "set (insert_by cmp x ys) = insert x (set ys)"
  by (induction ys) auto

lemma mset_insert_by: "mset (insert_by cmp x ys) = add_mset x (mset ys)"
  by (induction ys) auto

lemma mset_stable_insertion: "mset (stable_insertion cmp xs) = mset xs"
  by (induction xs) (simp_all add: stable_insertion_def mset_insert_by)

lemma set_stable_insertion: "set (stable_insertion cmp xs) = set xs"
  by (induction xs) (simp_all add: stable_insertion_def set_insert_by)

subsection \<open>Nullish values under the comparator\<close>

text \<open>
  In ascending order a nullish value never compares after anything, and a defined value
  compares after every nullish one; the descending comparator is the negation.
\<close>

lemma comparator_nullish_left:
  "nullish (field x (dataIndex c)) \<Longrightarrow> comparator lc lt c (Some Asc) x y \<le> 0"
  by (simp add: comparator_def Let_def)

lemma comparator_nullish_right:
  "\<not> nullish (field x (dataIndex c)) \<Longrightarrow> nullish (field y (dataIndex c))
     \<Longrightarrow> comparator lc lt c (Some Asc) x y = 1"
  by (auto simp add: comparator_def Let_def strict_eq_def)

lemma comparator_desc:
  "comparator lc lt c (Some Desc) = (\<lambda>a b. - comparator lc lt c (Some Asc) a b)"
  by (intro ext) (simp add: comparator_def Let_def)

lemma desc_nullish_left:
  "nullish (field x (dataIndex c)) \<Longrightarrow> comparator lc lt c (Some Desc) x y \<le> 0
     \<Longrightarrow> nullish (field y (dataIndex c))"
  by (auto simp add: comparator_def Let_def strict_eq_def split: if_splits)

lemma comparator_not_asc:
  "ord \<noteq> Some Asc \<Longrightarrow> comparator lc lt c ord = (\<lambda>a b. - comparator lc lt c (Some Asc) a b)"
  by (intro ext) (simp add: comparator_def Let_def)

text \<open>
  Inserting with the ascending comparator keeps the nullish values in front, and with the
  descending comparator at the end.
\<close>

lemma nullish_first_insert_by:
  assumes "nullish_first (dataIndex c) ys"
  shows "nullish_first (dataIndex c) (insert_by (comparator lc lt c (Some Asc)) x ys)"
  using assms
proof (induction ys)
  case Nil
  show ?case by (simp add: nullish_first_def)
next
  case (Cons y ys)
  from Cons.prems have tail: "nullish_first (dataIndex c) ys"
    and head: "\<forall>z\<in>set ys. \<not> (\<not> nullish (field y (dataIndex c)) \<and> nullish (field z (dataIndex c)))"
    by (simp_all add: nullish_first_def)
  show ?case
  proof (cases "comparator lc lt c (Some Asc) x y \<le> 0")
    case True
    have "\<not> (\<not> nullish (field x (dataIndex c)) \<and> nullish (field z (dataIndex c)))"
      if "z \<in> set (y # ys)" for z
    proof (cases "nullish (field x (dataIndex c))")
      case True
      then show ?thesis by simp
    next
      case False
      with \<open>comparator lc lt c (Some Asc) x y \<le> 0\<close>
      have "\<not> nullish (field y (dataIndex c))"
        using comparator_nullish_right [of x c y lc lt] by auto
      moreover from that have "z = y \<or> z \<in> set ys"
        by simp
      ultimately have "\<not> nullish (field z (dataIndex c))"
        using head by blast
      then show ?thesis
        by simp
    qed
    then have "\<forall>z\<in>set (y # ys).
        \<not> (\<not> nullish (field x (dataIndex c)) \<and> nullish (field z (dataIndex c)))"
      by blast
    with Cons.prems have "nullish_first (dataIndex c) (x # y # ys)"
      unfolding nullish_first_def sorted_wrt.simps by blast
    with True show ?thesis
      by simp
  next
    case False
    then have "\<not> nullish (field x (dataIndex c))"
      using comparator_nullish_left [of x c lc lt y] by auto
    with head have "\<forall>z\<in>set (insert_by (comparator lc lt c (Some Asc)) x ys).
        \<not> (\<not> nullish (field y (dataIndex c)) \<and> nullish (field z (dataIndex c)))"
      unfolding set_insert_by by blast
    with Cons.IH [OF tail]
    have "nullish_first (dataIndex c) (y # insert_by (comparator lc lt c (Some Asc)) x ys)"
      unfolding nullish_first_def sorted_wrt.simps by blast
    with False show ?thesis
      by simp
  qed
qed

lemma nullish_first_stable_insertion:
  "nullish_first (dataIndex c) (stable_insertion (comparator lc lt c (Some Asc)) xs)"
proof (induction xs)
  case Nil
  show ?case by (simp add: stable_insertion_def nullish_first_def)
next
  case (Cons x xs)
  then show ?case
    using nullish_first_insert_by [of c "stable_insertion (comparator lc lt c (Some Asc)) xs" lc lt x]
    by (simp add: stable_insertion_def)
qed

lemma nullish_last_insert_by:
  assumes "nullish_last (dataIndex c) ys"
  shows "nullish_last (dataIndex c) (insert_by (comparator lc lt c (Some Desc)) x ys)"
  using assms
proof (induction ys)
  case Nil
  show ?case by (simp add: nullish_last_def)
next
  case (Cons y ys)
  from Cons.prems have tail: "nullish_last (dataIndex c) ys"
    and head: "\<forall>z\<in>set ys. \<not> (nullish (field y (dataIndex c)) \<and> \<not> nullish (field z (dataIndex c)))"
    by (simp_all add: nullish_last_def)
  show ?case
  proof (cases "comparator lc lt c (Some Desc) x y \<le> 0")
    case True
    have "\<not> (nullish (field x (dataIndex c)) \<and> \<not> nullish (field z (dataIndex c)))"
      if "z \<in> set (y # ys)" for z
    proof (cases "nullish (field x (dataIndex c))")
      case False
      then show ?thesis by simp
    next
      case nx: True
      from nx True have ny: "nullish (field y (dataIndex c))"
        by (rule desc_nullish_left)
      from that have "z = y \<or> z \<in> set ys"
        by simp
      with ny head have "nullish (field z (dataIndex c))"
        by blast
      then show ?thesis
        by simp
    qed
    then have "\<forall>z\<in>set (y # ys).
        \<not> (nullish (field x (dataIndex c)) \<and> \<not> nullish (field z (dataIndex c)))"
      by blast
    with Cons.prems have "nullish_last (dataIndex c) (x # y # ys)"
      unfolding nullish_last_def sorted_wrt.simps by blast
    with True show ?thesis
      by simp
  next
    case False
    have "\<not> (nullish (field y (dataIndex c)) \<and> \<not> nullish (field x (dataIndex c)))"
    proof
      assume "nullish (field y (dataIndex c)) \<and> \<not> nullish (field x (dataIndex c))"
      then have "comparator lc lt c (Some Asc) x y = 1"
        by (simp add: comparator_nullish_right)
      with False show False
        by (simp add: comparator_desc)
    qed
    with head have "\<forall>z\<in>set (insert_by (comparator lc lt c (Some Desc)) x ys).
        \<not> (nullish (field y (dataIndex c)) \<and> \<not> nullish (field z (dataIndex c)))"
      unfolding set_insert_by by blast
    with Cons.IH [OF tail]
    have "nullish_last (dataIndex c) (y # insert_by (comparator lc lt c (Some Desc)) x ys)"
      unfolding nullish_last_def sorted_wrt.simps by blast
    with False show ?thesis
      by simp
  qed
qed

lemma nullish_last_stable_insertion:
  "nullish_last (dataIndex c) (stable_insertion (comparator lc lt c (Some Desc)) xs)"
proof (induction xs)
  case Nil
  show ?case by (simp add: stable_insertion_def nullish_last_def)
next
  case (Cons x xs)
  then show ?case
    using nullish_last_insert_by [of c "stable_insertion (comparator lc lt c (Some Desc)) xs" lc lt x]
    by (simp add: stable_insertion_def)
qed

subsection \<open>Consistent comparators\<close>

text \<open>For a consistent comparator, "before" one way is "after" the other way.\<close>

lemma consistent_swap:
  assumes "consistent cmp xs" and "a \<in> set xs" and "b \<in> set xs"
  shows "(cmp a b < 0) = (0 < cmp b a)"
proof -
  from assms have refl: "cmp a a = 0" "cmp b b = 0"
    unfolding consistent_def by blast+
  from assms have sym: "cmp a b = 0 \<longrightarrow> cmp b a = 0" "cmp b a = 0 \<longrightarrow> cmp a b = 0"
    unfolding consistent_def by blast+
  from assms have "cmp a b < 0 \<and> cmp b a < 0 \<longrightarrow> cmp a a < 0"
    unfolding consistent_def by blast
  with refl have lt: "\<not> (cmp a b < 0 \<and> cmp b a < 0)"
    by simp
  from assms have "0 < cmp a b \<and> 0 < cmp b a \<longrightarrow> 0 < cmp a a"
    unfolding consistent_def by blast
  with refl have gt: "\<not> (0 < cmp a b \<and> 0 < cmp b a)"
    by simp
  from sym lt gt show ?thesis
    by arith
qed

lemma consistent_before_trans:
  assumes "consistent cmp xs" and "a \<in> set xs" and "b \<in> set xs" and "c \<in> set xs"
    and "cmp a b < 0" and "cmp b c < 0"
  shows "cmp a c < 0"
proof -
  note t = assms(1) [unfolded consistent_def, THEN conjunct2, THEN conjunct2, THEN conjunct2,
      THEN conjunct1, rule_format, OF assms(2) assms(3) assms(4)]
  from assms(5,6) show ?thesis
    by (intro t conjI)
qed

lemma negated_consistent:
  assumes "consistent cmp xs"
  shows "consistent (\<lambda>a b. - cmp a b) xs"
proof -
  note u = assms [unfolded consistent_def]
  note c1 = u [THEN conjunct1]
    and c2 = u [THEN conjunct2, THEN conjunct1]
    and c3 = u [THEN conjunct2, THEN conjunct2, THEN conjunct1]
    and c4 = u [THEN conjunct2, THEN conjunct2, THEN conjunct2, THEN conjunct1]
    and c5 = u [THEN conjunct2, THEN conjunct2, THEN conjunct2, THEN conjunct2]
  show ?thesis
    unfolding consistent_def neg_equal_0_iff_equal neg_less_0_iff_less neg_0_less_iff_less
    by (intro conjI c1 c2 c3 c4 c5)
qed

text \<open>
  On a column of integers and \<^verbatim>\<open>null\<close> the comparator is consistent in either order, if
  \<^verbatim>\<open><\<close> orders the integers, as the operator of the instances does.
\<close>

lemma js_lessThan_orders_numbers: "orders_numbers js_lessThan"
  by (simp add: orders_numbers_def js_lessThan_def)

lemma comparator_numeric:
  assumes "orders_numbers lt"
    and "number_or_null (field a (dataIndex c))" and "number_or_null (field b (dataIndex c))"
  shows "comparator lc lt c (Some Asc) a b =
     (case (field a (dataIndex c), field b (dataIndex c)) of
        (Num m, Num n) \<Rightarrow> (if m = n then 0 else if m < n then - 1 else 1)
      | (Null, Num n) \<Rightarrow> - 1
      | (Num m, Null) \<Rightarrow> 1
      | _ \<Rightarrow> 0)"
  using assms
  by (cases "field a (dataIndex c)"; cases "field b (dataIndex c)")
    (simp_all add: comparator_def Let_def strict_eq_def nullish_def orders_numbers_def)

lemma numeric_column_consistent_asc:
  assumes "orders_numbers lt" and "numeric_column (dataIndex c) xs"
  shows "consistent (comparator lc lt c (Some Asc)) xs"
proof -
  from assms(2) have val: "number_or_null (field r (dataIndex c))" if "r \<in> set xs" for r
    using that by (simp add: numeric_column_def list_all_iff)
  have cmp: "comparator lc lt c (Some Asc) a b =
     (case (field a (dataIndex c), field b (dataIndex c)) of
        (Num m, Num n) \<Rightarrow> (if m = n then 0 else if m < n then - 1 else 1)
      | (Null, Num n) \<Rightarrow> - 1
      | (Num m, Null) \<Rightarrow> 1
      | _ \<Rightarrow> 0)" if "a \<in> set xs" "b \<in> set xs" for a b
    using that by (intro comparator_numeric assms(1) val)
  show ?thesis
    unfolding consistent_def
  proof (intro conjI ballI impI)
    fix a assume "a \<in> set xs"
    with val [of a] show "comparator lc lt c (Some Asc) a a = 0"
      by (cases "field a (dataIndex c)") (simp_all add: cmp)
  next
    fix a b assume "a \<in> set xs" "b \<in> set xs" "comparator lc lt c (Some Asc) a b = 0"
    with val [of a] val [of b] show "comparator lc lt c (Some Asc) b a = 0"
      by (cases "field a (dataIndex c)"; cases "field b (dataIndex c)")
        (simp_all add: cmp split: if_splits)
  next
    fix a b d assume "a \<in> set xs" "b \<in> set xs" "d \<in> set xs"
      "comparator lc lt c (Some Asc) a b = 0 \<and> comparator lc lt c (Some Asc) b d = 0"
    with val [of a] val [of b] val [of d] show "comparator lc lt c (Some Asc) a d = 0"
      by (cases "field a (dataIndex c)"; cases "field b (dataIndex c)";
          cases "field d (dataIndex c)") (simp_all add: cmp split: if_splits)
  next
    fix a b d assume "a \<in> set xs" "b \<in> set xs" "d \<in> set xs"
      "comparator lc lt c (Some Asc) a b < 0 \<and> comparator lc lt c (Some Asc) b d < 0"
    with val [of a] val [of b] val [of d] show "comparator lc lt c (Some Asc) a d < 0"
      by (cases "field a (dataIndex c)"; cases "field b (dataIndex c)";
          cases "field d (dataIndex c)") (simp_all add: cmp split: if_splits)
  next
    fix a b d assume "a \<in> set xs" "b \<in> set xs" "d \<in> set xs"
      "0 < comparator lc lt c (Some Asc) a b \<and> 0 < comparator lc lt c (Some Asc) b d"
    with val [of a] val [of b] val [of d] show "0 < comparator lc lt c (Some Asc) a d"
      by (cases "field a (dataIndex c)"; cases "field b (dataIndex c)";
          cases "field d (dataIndex c)") (simp_all add: cmp split: if_splits)
  qed
qed

lemma numeric_column_consistent:
  assumes "orders_numbers lt" and "numeric_column (dataIndex c) xs"
  shows "consistent (comparator lc lt c ord) xs"
proof (cases "ord = Some Asc")
  case True
  with assms show ?thesis
    by (simp add: numeric_column_consistent_asc)
next
  case False
  with negated_consistent [OF numeric_column_consistent_asc [OF assms, of lc]] show ?thesis
    by (simp add: comparator_not_asc)
qed

subsection \<open>The comparator\<close>

text \<open>
  Claim C3, as stated, fails where both values are nullish and not identical. For \<open>cy\<close>,
  whose age is \<^verbatim>\<open>null\<close>, and \<open>dee\<close>, who has no age, the comparator returns -1 in
  ascending order, while the comparison worded in the claim falls through to \<^verbatim>\<open><\<close>,
  which is false of \<^verbatim>\<open>null\<close> and \<^verbatim>\<open>undefined\<close>, and gives +1. With the arguments
  swapped the comparator returns -1 again: \<^verbatim>\<open>undefined\<close>, which is not \<^verbatim>\<open>null\<close>,
  compares before \<^verbatim>\<open>null\<close> in ascending order.
\<close>

theorem comparator_counterexample:
  "comparator codeunit_compare js_lessThan ageColumn (Some Asc) cy dee = - 1
   \<and> spec_comparison codeunit_compare js_lessThan Asc
        (field cy (dataIndex ageColumn)) (field dee (dataIndex ageColumn)) = 1
   \<and> field cy (dataIndex ageColumn) = Null
   \<and> field dee (dataIndex ageColumn) \<noteq> Null
   \<and> comparator codeunit_compare js_lessThan ageColumn (Some Asc) dee cy = - 1"
  by (simp add: comparator_def spec_comparison_def field_def cy_def dee_def ageColumn_def
      nullish_def strict_eq_def js_lessThan_def)

text \<open>
  While the view is sorted on a column by a comparator that is consistent on the data, it
  holds the records of the data, with the nullish values of the column first in ascending
  order and last in descending order.
\<close>

lemma sorted_view_nullish:
  assumes "sortKey st = Some (key c)" and "\<not> falsy_key (sortKey st)"
    and "find (\<lambda>col. key col = key c) (columns p) = Some c"
    and "consistent (comparator lc lt c (sortOrder st)) (h ! data p)"
  shows "mset (displayed eng lc lt h p st) = mset (h ! data p)
     \<and> (sortOrder st = Some Asc \<longrightarrow> nullish_first (dataIndex c) (displayed eng lc lt h p st))
     \<and> (sortOrder st = Some Desc \<longrightarrow> nullish_last (dataIndex c) (displayed eng lc lt h p st))"
proof (cases "sortOrder st")
  case None
  then show ?thesis
    by (simp add: displayed_eq)
next
  case (Some ord)
  with assms have view: "displayed eng lc lt h p st
      = stable_insertion (comparator lc lt c (Some ord)) (h ! data p)"
    by (simp add: displayed_eq array_sort_consistent)
  show ?thesis
  proof (cases ord)
    case Asc
    with Some view show ?thesis
      by (simp add: mset_stable_insertion nullish_first_stable_insertion)
  next
    case Desc
    with Some view show ?thesis
      by (simp add: mset_stable_insertion nullish_last_stable_insertion)
  qed
qed

text \<open>
  Claim C3, amended. On the values \<open>a\<close> and \<open>b\<close> that the active column reads from two
  records the comparator returns 0 when they are identical (\<^verbatim>\<open>===\<close>). Otherwise, in
  ascending order: -1 when only \<open>a\<close> is nullish, +1 when only \<open>b\<close> is nullish, the result of
  the collation when both are strings, and, when both are defined and not both strings, -1
  if \<open>a < b\<close> and +1 if not. In descending order the result is the negation. In particular,
  while the view is sorted on the column and the comparator is consistent on the data (so
  that the standard fixes the order), the view holds the records of the data with every
  nullish value of the column before every defined one in ascending order, and after it
  in descending order. Nothing is said of two different nullish values.
\<close>

theorem comparator_cases:
  "(strict_eq (field a (dataIndex c)) (field b (dataIndex c)) \<longrightarrow>
        comparator lc lt c ord a b = 0)
   \<and> (nullish (field a (dataIndex c)) \<and> \<not> nullish (field b (dataIndex c)) \<longrightarrow>
        comparator lc lt c (Some Asc) a b = - 1)
   \<and> (\<not> nullish (field a (dataIndex c)) \<and> nullish (field b (dataIndex c)) \<longrightarrow>
        comparator lc lt c (Some Asc) a b = 1)
   \<and> (field a (dataIndex c) = Str s \<and> field b (dataIndex c) = Str t \<and> s \<noteq> t \<longrightarrow>
        comparator lc lt c (Some Asc) a b = lc s t)
   \<and> (\<not> strict_eq (field a (dataIndex c)) (field b (dataIndex c))
        \<and> \<not> nullish (field a (dataIndex c)) \<and> \<not> nullish (field b (dataIndex c))
        \<and> \<not> (is_string (field a (dataIndex c)) \<and> is_string (field b (dataIndex c))) \<longrightarrow>
        comparator lc lt c (Some Asc) a b
          = (if lt (field a (dataIndex c)) (field b (dataIndex c)) then - 1 else 1))
   \<and> comparator lc lt c (Some Desc) a b = - comparator lc lt c (Some Asc) a b
   \<and> (sortKey st = Some (key c) \<and> \<not> falsy_key (sortKey st)
        \<and> find (\<lambda>col. key col = key c) (columns p) = Some c
        \<and> consistent (comparator lc lt c (sortOrder st)) (h ! data p) \<longrightarrow>
        mset (displayed eng lc lt h p st) = mset (h ! data p)
        \<and> (sortOrder st = Some Asc \<longrightarrow>
             nullish_first (dataIndex c) (displayed eng lc lt h p st))
        \<and> (sortOrder st = Some Desc \<longrightarrow>
             nullish_last (dataIndex c) (displayed eng lc lt h p st)))"
proof -
  have equal: "strict_eq (field a (dataIndex c)) (field b (dataIndex c)) \<longrightarrow>
      comparator lc lt c ord a b = 0"
    by (simp add: comparator_def Let_def)
  have only_a: "nullish (field a (dataIndex c)) \<and> \<not> nullish (field b (dataIndex c)) \<longrightarrow>
      comparator lc lt c (Some Asc) a b = - 1"
    by (auto simp add: comparator_def Let_def strict_eq_def)
  have only_b: "\<not> nullish (field a (dataIndex c)) \<and> nullish (field b (dataIndex c)) \<longrightarrow>
      comparator lc lt c (Some Asc) a b = 1"
    by (simp add: comparator_nullish_right)
  have strings: "field a (dataIndex c) = Str s \<and> field b (dataIndex c) = Str t \<and> s \<noteq> t \<longrightarrow>
      comparator lc lt c (Some Asc) a b = lc s t"
    by (simp add: comparator_def Let_def strict_eq_def nullish_def)
  have others: "\<not> strict_eq (field a (dataIndex c)) (field b (dataIndex c))
      \<and> \<not> nullish (field a (dataIndex c)) \<and> \<not> nullish (field b (dataIndex c))
      \<and> \<not> (is_string (field a (dataIndex c)) \<and> is_string (field b (dataIndex c))) \<longrightarrow>
      comparator lc lt c (Some Asc) a b
        = (if lt (field a (dataIndex c)) (field b (dataIndex c)) then - 1 else 1)"
    by (auto simp add: comparator_def Let_def split: jsval.splits)
  have negated: "comparator lc lt c (Some Desc) a b = - comparator lc lt c (Some Asc) a b"
    by (simp add: comparator_desc)
  have view: "sortKey st = Some (key c) \<and> \<not> falsy_key (sortKey st)
      \<and> find (\<lambda>col. key col = key c) (columns p) = Some c
      \<and> consistent (comparator lc lt c (sortOrder st)) (h ! data p) \<longrightarrow>
      mset (displayed eng lc lt h p st) = mset (h ! data p)
      \<and> (sortOrder st = Some Asc \<longrightarrow>
           nullish_first (dataIndex c) (displayed eng lc lt h p st))
      \<and> (sortOrder st = Some Desc \<longrightarrow>
           nullish_last (dataIndex c) (displayed eng lc lt h p st))"
  proof
    assume sorting: "sortKey st = Some (key c) \<and> \<not> falsy_key (sortKey st)
      \<and> find (\<lambda>col. key col = key c) (columns p) = Some c
      \<and> consistent (comparator lc lt c (sortOrder st)) (h ! data p)"
    note sorting [THEN conjunct1] sorting [THEN conjunct2, THEN conjunct1]
      sorting [THEN conjunct2, THEN conjunct2, THEN conjunct1]
      sorting [THEN conjunct2, THEN conjunct2, THEN conjunct2]
    then show "mset (displayed eng lc lt h p st) = mset (h ! data p)
      \<and> (sortOrder st = Some Asc \<longrightarrow>
           nullish_first (dataIndex c) (displayed eng lc lt h p st))
      \<and> (sortOrder st = Some Desc \<longrightarrow>
           nullish_last (dataIndex c) (displayed eng lc lt h p st))"
      by (rule sorted_view_nullish)
  qed
  show ?thesis
    by (intro conjI equal only_a only_b strings others negated view)
qed

theorem comparator_cases_witness:
  "comparator codeunit_compare js_lessThan ageColumn (Some Asc) bob bob = 0
   \<and> comparator codeunit_compare js_lessThan ageColumn (Some Asc) cy bob = - 1
   \<and> comparator codeunit_compare js_lessThan ageColumn (Some Desc) cy bob = 1
   \<and> comparator codeunit_compare js_lessThan ageColumn (Some Asc) bob cy = 1
   \<and> comparator codeunit_compare js_lessThan nameColumn (Some Asc) bob ana
       = codeunit_compare ''bob'' ''ana''
   \<and> comparator codeunit_compare js_lessThan ageColumn (Some Asc) ana bob = - 1
   \<and> comparator codeunit_compare js_lessThan ageColumn (Some Desc) ana bob = 1
   \<and> displayed stable_insertion codeunit_compare js_lessThan example_heap example_props
        \<lparr>sortKey = Some ''age'', sortOrder = Some Asc\<rparr> = [cy, ana, bob]
   \<and> nullish_first ''age''
        (displayed stable_insertion codeunit_compare js_lessThan example_heap example_props
           \<lparr>sortKey = Some ''age'', sortOrder = Some Asc\<rparr>)
   \<and> displayed stable_insertion codeunit_compare js_lessThan example_heap example_props
        \<lparr>sortKey = Some ''age'', sortOrder = Some Desc\<rparr> = [bob, ana, cy]
   \<and> nullish_last ''age''
        (displayed stable_insertion codeunit_compare js_lessThan example_heap example_props
           \<lparr>sortKey = Some ''age'', sortOrder = Some Desc\<rparr>)"
proof -
  note unfold = field_def bob_def ana_def cy_def ageColumn_def nameColumn_def nullish_def
    strict_eq_def js_lessThan_def
  have v1: "comparator codeunit_compare js_lessThan ageColumn (Some Asc) bob bob = 0"
    by (rule comparator_cases [where a = bob and c = ageColumn and b = bob, THEN conjunct1,
          THEN mp]) (simp add: unfold)
  have v2: "comparator codeunit_compare js_lessThan ageColumn (Some Asc) cy bob = - 1"
    by (rule comparator_cases [where a = cy and c = ageColumn and b = bob, THEN conjunct2,
          THEN conjunct1, THEN mp]) (simp add: unfold)
  have v3: "comparator codeunit_compare js_lessThan ageColumn (Some Desc) cy bob = 1"
    using comparator_cases [where a = cy and c = ageColumn and b = bob
        and lc = codeunit_compare and lt = js_lessThan, THEN conjunct2, THEN conjunct2,
        THEN conjunct2, THEN conjunct2, THEN conjunct2, THEN conjunct1] v2
    by simp
  have v4: "comparator codeunit_compare js_lessThan ageColumn (Some Asc) bob cy = 1"
    by (rule comparator_cases [where a = bob and c = ageColumn and b = cy, THEN conjunct2,
          THEN conjunct2, THEN conjunct1, THEN mp]) (simp add: unfold)
  have v5: "comparator codeunit_compare js_lessThan nameColumn (Some Asc) bob ana
      = codeunit_compare ''bob'' ''ana''"
    by (rule comparator_cases [where a = bob and c = nameColumn and b = ana, THEN conjunct2,
          THEN conjunct2, THEN conjunct2, THEN conjunct1, THEN mp]) (simp add: unfold)
  have "comparator codeunit_compare js_lessThan ageColumn (Some Asc) ana bob
      = (if js_lessThan (field ana (dataIndex ageColumn)) (field bob (dataIndex ageColumn))
         then - 1 else 1)"
    by (rule comparator_cases [where a = ana and c = ageColumn and b = bob, THEN conjunct2,
          THEN conjunct2, THEN conjunct2, THEN conjunct2, THEN conjunct1, THEN mp])
      (simp add: unfold)
  then have v6: "comparator codeunit_compare js_lessThan ageColumn (Some Asc) ana bob = - 1"
    by (simp add: unfold)
  have v7: "comparator codeunit_compare js_lessThan ageColumn (Some Desc) ana bob = 1"
    using comparator_cases [where a = ana and c = ageColumn and b = bob
        and lc = codeunit_compare and lt = js_lessThan, THEN conjunct2, THEN conjunct2,
        THEN conjunct2, THEN conjunct2, THEN conjunct2, THEN conjunct1] v6
    by simp
  have d: "example_heap ! data example_props = [bob, ana, cy]"
    by (simp add: example_props_def example_heap_def)
  have "numeric_column (dataIndex ageColumn) (example_heap ! data example_props)"
    by (simp add: d numeric_column_def field_def bob_def ana_def cy_def ageColumn_def)
  then have cons: "consistent (comparator codeunit_compare js_lessThan ageColumn ord)
      (example_heap ! data example_props)" for ord
    by (intro numeric_column_consistent js_lessThan_orders_numbers)
  have found: "find (\<lambda>col. key col = key ageColumn) (columns example_props) = Some ageColumn"
    by (simp add: example_props_def nameColumn_def ageColumn_def)
  have asc: "sortKey \<lparr>sortKey = Some ''age'', sortOrder = Some Asc\<rparr> = Some (key ageColumn)
      \<and> \<not> falsy_key (sortKey \<lparr>sortKey = Some ''age'', sortOrder = Some Asc\<rparr>)
      \<and> find (\<lambda>col. key col = key ageColumn) (columns example_props) = Some ageColumn
      \<and> consistent (comparator codeunit_compare js_lessThan ageColumn
            (sortOrder \<lparr>sortKey = Some ''age'', sortOrder = Some Asc\<rparr>))
          (example_heap ! data example_props)"
    using found cons by (simp add: ageColumn_def falsy_key_def)
  have desc: "sortKey \<lparr>sortKey = Some ''age'', sortOrder = Some Desc\<rparr> = Some (key ageColumn)
      \<and> \<not> falsy_key (sortKey \<lparr>sortKey = Some ''age'', sortOrder = Some Desc\<rparr>)
      \<and> find (\<lambda>col. key col = key ageColumn) (columns example_props) = Some ageColumn
      \<and> consistent (comparator codeunit_compare js_lessThan ageColumn
            (sortOrder \<lparr>sortKey = Some ''age'', sortOrder = Some Desc\<rparr>))
          (example_heap ! data example_props)"
    using found cons by (simp add: ageColumn_def falsy_key_def)
  note view = comparator_cases [where c = ageColumn and lc = codeunit_compare
      and lt = js_lessThan and p = example_props and h = example_heap
      and eng = stable_insertion, THEN conjunct2, THEN conjunct2, THEN conjunct2,
      THEN conjunct2, THEN conjunct2, THEN conjunct2, THEN mp]
  from view [OF asc] have first: "nullish_first ''age''
      (displayed stable_insertion codeunit_compare js_lessThan example_heap example_props
         \<lparr>sortKey = Some ''age'', sortOrder = Some Asc\<rparr>)"
    by (simp add: ageColumn_def)
  from view [OF desc] have last: "nullish_last ''age''
      (displayed stable_insertion codeunit_compare js_lessThan example_heap example_props
         \<lparr>sortKey = Some ''age'', sortOrder = Some Desc\<rparr>)"
    by (simp add: ageColumn_def)
  have shown: "displayed stable_insertion codeunit_compare js_lessThan example_heap
        example_props \<lparr>sortKey = Some ''age'', sortOrder = Some Asc\<rparr> = [cy, ana, bob]"
    "displayed stable_insertion codeunit_compare js_lessThan example_heap
        example_props \<lparr>sortKey = Some ''age'', sortOrder = Some Desc\<rparr> = [bob, ana, cy]"
    by (simp_all add: displayed_eq falsy_key_def array_sort_stable_insertion
        stable_insertion_def example_props_def example_heap_def nameColumn_def ageColumn_def
        comparator_def
        field_def bob_def ana_def cy_def nullish_def strict_eq_def js_lessThan_def)
  from v1 v2 v3 v4 v5 v6 v7 first last shown show ?thesis
    by (intro conjI)
qed

subsection \<open>Sorting leaves the store as it was\<close>

text \<open>
  Claim C4. Computing the sorted view changes no array that was in the store before, so the
  data array (and the selection) keep their contents: the view is either the data array
  itself with the store untouched, or a freshly allocated array. What the view holds
  depends only on the contents of the data array, the columns and the sort state.
\<close>

theorem sortedData_frame:
  "(\<forall>a<length h. fst (sortedData eng lc lt h p st) ! a = h ! a)
   \<and> (data p < length h \<longrightarrow> fst (sortedData eng lc lt h p st) ! data p = h ! data p)
   \<and> (selectedRows p < length h \<longrightarrow>
        fst (sortedData eng lc lt h p st) ! selectedRows p = h ! selectedRows p)
   \<and> length h \<le> length (fst (sortedData eng lc lt h p st))
   \<and> (sortedData eng lc lt h p st = (h, data p) \<or> snd (sortedData eng lc lt h p st) = length h)
   \<and> (h ! data p = h' ! data p' \<and> columns p = columns p' \<longrightarrow>
        displayed eng lc lt h p st = displayed eng lc lt h' p' st)"
  by (simp add: displayed_eq)
    (simp add: sortedData_def spread_def alloc_def sort_in_place_def nth_append
      split: option.splits)

theorem sortedData_frame_witness:
  "sortedData stable_insertion codeunit_compare js_lessThan example_heap example_props
       \<lparr>sortKey = Some ''age'', sortOrder = Some Asc\<rparr>
     = ([[bob, ana, cy], [ana], [cy, ana, bob]], 2)
   \<and> fst (sortedData stable_insertion codeunit_compare js_lessThan example_heap example_props
       \<lparr>sortKey = Some ''age'', sortOrder = Some Asc\<rparr>) ! data example_props = [bob, ana, cy]
   \<and> displayed stable_insertion codeunit_compare js_lessThan example_heap example_props
        \<lparr>sortKey = Some ''age'', sortOrder = Some Asc\<rparr>
     = displayed stable_insertion codeunit_compare js_lessThan [[ana], [bob, ana, cy]]
        (example_props\<lparr>data := 1, selectedRows := 0\<rparr>)
        \<lparr>sortKey = Some ''age'', sortOrder = Some Asc\<rparr>"
proof -
  have d: "data example_props < length example_heap"
    by (simp add: example_props_def example_heap_def)
  have e: "example_heap ! data example_props
      = [[ana], [bob, ana, cy]] ! data (example_props\<lparr>data := 1, selectedRows := 0\<rparr>)
    \<and> columns example_props = columns (example_props\<lparr>data := 1, selectedRows := 0\<rparr>)"
    by (simp add: example_props_def example_heap_def)
  have v: "example_heap ! data example_props = [bob, ana, cy]"
    by (simp add: example_props_def example_heap_def)
  have s: "sortedData stable_insertion codeunit_compare js_lessThan example_heap example_props
       \<lparr>sortKey = Some ''age'', sortOrder = Some Asc\<rparr>
     = ([[bob, ana, cy], [ana], [cy, ana, bob]], 2)"
    by (simp add: sortedData_def spread_def alloc_def sort_in_place_def falsy_key_def
        example_props_def example_heap_def nameColumn_def ageColumn_def
        array_sort_stable_insertion stable_insertion_def
        comparator_def field_def bob_def ana_def cy_def nullish_def strict_eq_def js_lessThan_def)
  from sortedData_frame [of example_heap stable_insertion codeunit_compare js_lessThan example_props
      "\<lparr>sortKey = Some ''age'', sortOrder = Some Asc\<rparr>" "[[ana], [bob, ana, cy]]"
      "example_props\<lparr>data := 1, selectedRows := 0\<rparr>"] d e
  have "fst (sortedData stable_insertion codeunit_compare js_lessThan example_heap example_props
       \<lparr>sortKey = Some ''age'', sortOrder = Some Asc\<rparr>) ! data example_props
         = example_heap ! data example_props"
    and "displayed stable_insertion codeunit_compare js_lessThan example_heap example_props
        \<lparr>sortKey = Some ''age'', sortOrder = Some Asc\<rparr>
     = displayed stable_insertion codeunit_compare js_lessThan [[ana], [bob, ana, cy]]
        (example_props\<lparr>data := 1, selectedRows := 0\<rparr>)
        \<lparr>sortKey = Some ''age'', sortOrder = Some Asc\<rparr>"
    by blast+
  with s v show ?thesis
    by (simp only: simp_thms)
qed

subsection \<open>Selection\<close>

text \<open>Without the callback neither handler emits anything or touches the store.\<close>

lemma no_callback_no_emission:
  "onRowSelect p = None \<Longrightarrow>
     handleRowSelect h p r checked = (h, None) \<and> handleSelectAll h p checked = (h, None)"
  by (simp add: handleRowSelect_def handleSelectAll_def)




text \<open>
  Claim C8. Checking the header checkbox emits a freshly allocated array holding the data
  in input order, and unchecking it emits a fresh empty array. This is so in every sort
  state, also after the sorted view has been computed: what is emitted is the input order,
  not the sorted one.
\<close>

theorem select_all_snapshot:
  assumes "onRowSelect p = Some emit" and "data p < length h"
  shows "handleSelectAll h p True = (h @ [h ! data p], Some (emit (length h)))
     \<and> handleSelectAll h p False = (h @ [[]], Some (emit (length h)))
     \<and> handleSelectAll (fst (sortedData eng lc lt h p st)) p True
       = (fst (sortedData eng lc lt h p st) @ [h ! data p],
          Some (emit (length (fst (sortedData eng lc lt h p st)))))
     \<and> handleSelectAll (fst (sortedData eng lc lt h p st)) p False
       = (fst (sortedData eng lc lt h p st) @ [[]],
          Some (emit (length (fst (sortedData eng lc lt h p st)))))"
proof -
  from assms(2) have "fst (sortedData eng lc lt h p st) ! data p = h ! data p"
    by (simp add: sortedData_def spread_def alloc_def sort_in_place_def nth_append
      split: option.splits)
  with assms(1) show ?thesis
    by (simp add: handleSelectAll_def spread_def alloc_def)
qed

theorem select_all_snapshot_witness:
  "handleSelectAll
       (fst (sortedData stable_insertion codeunit_compare js_lessThan example_heap example_props
          \<lparr>sortKey = Some ''age'', sortOrder = Some Asc\<rparr>)) example_props True
     = ([[bob, ana, cy], [ana], [cy, ana, bob], [bob, ana, cy]], Some 3)
   \<and> handleSelectAll
       (fst (sortedData stable_insertion codeunit_compare js_lessThan example_heap example_props
          \<lparr>sortKey = Some ''age'', sortOrder = Some Asc\<rparr>)) example_props False
     = ([[bob, ana, cy], [ana], [cy, ana, bob], []], Some 3)"
proof -
  have e: "onRowSelect example_props = Some (\<lambda>a. a)"
    by (simp add: example_props_def)
  have d: "data example_props < length example_heap"
    by (simp add: example_props_def example_heap_def)
  have s: "sortedData stable_insertion codeunit_compare js_lessThan example_heap example_props
       \<lparr>sortKey = Some ''age'', sortOrder = Some Asc\<rparr>
     = ([[bob, ana, cy], [ana], [cy, ana, bob]], 2)"
    by (simp add: sortedData_def spread_def alloc_def sort_in_place_def falsy_key_def
        example_props_def example_heap_def nameColumn_def ageColumn_def
        array_sort_stable_insertion stable_insertion_def
        comparator_def field_def bob_def ana_def cy_def nullish_def strict_eq_def js_lessThan_def)
  have v: "example_heap ! data example_props = [bob, ana, cy]"
    by (simp add: example_props_def example_heap_def)
  from select_all_snapshot [OF e d, of stable_insertion codeunit_compare js_lessThan
      "\<lparr>sortKey = Some ''age'', sortOrder = Some Asc\<rparr>"]
  show ?thesis
    by (simp add: s v)
qed

subsection \<open>Ascending against descending\<close>

text \<open>
  For a comparator that is consistent and has no ties on a list, the stable sort by the
  negated comparator is the reverse of the stable sort by the comparator.
\<close>

lemma distinct_insert_by: "x \<notin> set ys \<Longrightarrow> distinct ys \<Longrightarrow> distinct (insert_by cmp x ys)"
  by (induction ys) (auto simp add: set_insert_by)

lemma distinct_stable_insertion: "distinct xs \<Longrightarrow> distinct (stable_insertion cmp xs)"
proof (induction xs)
  case Nil
  show ?case by (simp add: stable_insertion_def)
next
  case (Cons x xs)
  then have "distinct (stable_insertion cmp xs)" and "x \<notin> set (stable_insertion cmp xs)"
    by (simp_all add: set_stable_insertion)
  then have "distinct (insert_by cmp x (stable_insertion cmp xs))"
    by (simp add: distinct_insert_by)
  then show ?case by (simp add: stable_insertion_def)
qed

lemma sorted_insert_by:
  assumes "no_ties cmp zs" and "consistent cmp zs"
    and "x \<in> set zs" and "set ys \<subseteq> set zs" and "x \<notin> set ys"
    and "sorted_wrt (\<lambda>a b. cmp a b < 0) ys"
  shows "sorted_wrt (\<lambda>a b. cmp a b < 0) (insert_by cmp x ys)"
  using assms(4-6)
proof (induction ys)
  case Nil
  show ?case by simp
next
  case (Cons y ys)
  from Cons.prems have y: "y \<in> set zs" and ys: "set ys \<subseteq> set zs" and xy: "x \<noteq> y"
    and x: "x \<notin> set ys" and sorted_ys: "sorted_wrt (\<lambda>a b. cmp a b < 0) ys"
    and y_first: "\<forall>z\<in>set ys. cmp y z < 0"
    by auto
  from assms(1) assms(3) y xy have nz: "cmp x y \<noteq> 0"
    by (simp add: no_ties_def)
  show ?case
  proof (cases "cmp x y \<le> 0")
    case True
    with nz have lt: "cmp x y < 0" by simp
    have "cmp x z < 0" if "z \<in> set ys" for z
    proof -
      from that y_first have yz: "cmp y z < 0" by simp
      from that ys have z: "z \<in> set zs" by auto
      show ?thesis
        by (rule consistent_before_trans [OF assms(2) assms(3) y z lt yz])
    qed
    with True lt Cons.prems show ?thesis by simp
  next
    case False
    then have "0 < cmp x y" by simp
    with consistent_swap [OF assms(2) y assms(3)] have "cmp y x < 0"
      by simp
    with y_first have "\<forall>z\<in>set (insert_by cmp x ys). cmp y z < 0"
      by (simp add: set_insert_by)
    moreover from Cons.IH ys x sorted_ys
    have "sorted_wrt (\<lambda>a b. cmp a b < 0) (insert_by cmp x ys)" by simp
    ultimately show ?thesis using False by simp
  qed
qed

lemma sorted_stable_insertion_sub:
  assumes "no_ties cmp zs" and "consistent cmp zs"
  shows "set ys \<subseteq> set zs \<Longrightarrow> distinct ys
    \<Longrightarrow> sorted_wrt (\<lambda>a b. cmp a b < 0) (stable_insertion cmp ys)"
proof (induction ys)
  case Nil
  show ?case by (simp add: stable_insertion_def)
next
  case (Cons y ys)
  then have "sorted_wrt (\<lambda>a b. cmp a b < 0) (stable_insertion cmp ys)"
    and "y \<in> set zs" and "set (stable_insertion cmp ys) \<subseteq> set zs"
    and "y \<notin> set (stable_insertion cmp ys)"
    by (simp_all add: set_stable_insertion)
  with assms
  have "sorted_wrt (\<lambda>a b. cmp a b < 0) (insert_by cmp y (stable_insertion cmp ys))"
    by (simp add: sorted_insert_by)
  then show ?case by (simp add: stable_insertion_def)
qed

lemma sorted_stable_insertion:
  assumes "no_ties cmp xs" and "consistent cmp xs"
  shows "sorted_wrt (\<lambda>a b. cmp a b < 0) (stable_insertion cmp xs)"
  using sorted_stable_insertion_sub [OF assms, of xs] assms(1)
  by (simp add: no_ties_def)

text \<open>Two lists without repetition, of the same elements and sorted alike, are equal.\<close>

lemma sorted_wrt_unique:
  assumes "\<forall>a\<in>set xs. \<forall>b\<in>set xs. R a b \<longrightarrow> \<not> R b a"
  shows "sorted_wrt R xs \<Longrightarrow> sorted_wrt R ys \<Longrightarrow> set xs = set ys \<Longrightarrow> distinct xs
    \<Longrightarrow> distinct ys \<Longrightarrow> xs = ys"
  using assms
proof (induction xs arbitrary: ys)
  case Nil
  then show ?case by simp
next
  case (Cons x xs)
  from Cons.prems(3) obtain y ys' where ys: "ys = y # ys'"
    by (cases ys) auto
  have "x = y"
  proof (rule ccontr)
    assume ne: "x \<noteq> y"
    with Cons.prems(3) ys have mem: "x \<in> set ys'" "y \<in> set xs"
      by auto
    with Cons.prems(1,2) ys have "R y x" and "R x y"
      by auto
    moreover from Cons.prems(6) mem(2) have "R x y \<longrightarrow> \<not> R y x"
      by simp
    ultimately show False
      by simp
  qed
  moreover have "xs = ys'"
  proof (rule Cons.IH)
    from Cons.prems(1) show "sorted_wrt R xs" by simp
    from Cons.prems(2) ys show "sorted_wrt R ys'" by simp
    from Cons.prems(4,5) ys \<open>x = y\<close> have "x \<notin> set xs" and "x \<notin> set ys'"
      by simp_all
    moreover from Cons.prems(3) ys \<open>x = y\<close> have "insert x (set xs) = insert x (set ys')"
      by simp
    ultimately show "set xs = set ys'"
      by (simp add: insert_ident)
    from Cons.prems(4) show "distinct xs" by simp
    from Cons.prems(5) ys show "distinct ys'" by simp
    from Cons.prems(6) show "\<forall>a\<in>set xs. \<forall>b\<in>set xs. R a b \<longrightarrow> \<not> R b a" by simp
  qed
  ultimately show ?case using ys by simp
qed

lemma negated_no_ties: "no_ties cmp xs \<Longrightarrow> no_ties (\<lambda>a b. - cmp a b) xs"
  by (simp add: no_ties_def)

lemma descending_is_reverse:
  assumes "no_ties cmp xs" and "consistent cmp xs"
  shows "stable_insertion (\<lambda>a b. - cmp a b) xs = rev (stable_insertion cmp xs)"
proof -
  let ?R = "\<lambda>a b. - cmp a b < 0"
  note swap = consistent_swap [OF assms(2)]
  have "sorted_wrt ?R (stable_insertion (\<lambda>a b. - cmp a b) xs)"
    using assms by (intro sorted_stable_insertion negated_no_ties negated_consistent)
  moreover have "sorted_wrt ?R (rev (stable_insertion cmp xs))"
  proof -
    have "sorted_wrt (\<lambda>a b. cmp a b < 0) (stable_insertion cmp xs)"
      using assms by (rule sorted_stable_insertion)
    then have "sorted_wrt (\<lambda>a b. cmp b a < 0) (rev (stable_insertion cmp xs))"
      by (simp add: sorted_wrt_rev)
    then show ?thesis
      by (rule sorted_wrt_mono_rel [rotated]) (simp add: set_stable_insertion swap)
  qed
  moreover have "set (stable_insertion (\<lambda>a b. - cmp a b) xs) = set (rev (stable_insertion cmp xs))"
    by (simp add: set_stable_insertion)
  moreover from assms(1) have "distinct (stable_insertion (\<lambda>a b. - cmp a b) xs)"
    and "distinct (rev (stable_insertion cmp xs))"
    by (simp_all add: distinct_stable_insertion no_ties_def)
  moreover have "\<forall>a\<in>set (stable_insertion (\<lambda>a b. - cmp a b) xs).
      \<forall>b\<in>set (stable_insertion (\<lambda>a b. - cmp a b) xs). ?R a b \<longrightarrow> \<not> ?R b a"
  proof (intro ballI impI)
    fix a b
    assume "a \<in> set (stable_insertion (\<lambda>a b. - cmp a b) xs)"
      and "b \<in> set (stable_insertion (\<lambda>a b. - cmp a b) xs)" and "- cmp a b < 0"
    with swap [of b a] have "cmp b a < 0"
      by (simp add: set_stable_insertion)
    then show "\<not> - cmp b a < 0"
      by simp
  qed
  ultimately show ?thesis
    by (rule sorted_wrt_unique [rotated])
qed

text \<open>
  So for a sortable column with a non-empty key that the lookup finds, and a comparator
  that is consistent and without ties on the data, the view after two clicks is the reverse
  of the view after one click.
\<close>

lemma second_click_reverses:
  assumes "sortable c = Some True" and "key c \<noteq> []"
    and "find (\<lambda>col. key col = key c) (columns p) = Some c"
    and "no_ties (comparator lc lt c (Some Asc)) (h ! data p)"
    and "consistent (comparator lc lt c (Some Asc)) (h ! data p)"
  shows "displayed eng lc lt h p (handleSort c (handleSort c initialSortState))
       = rev (displayed eng lc lt h p (handleSort c initialSortState))"
proof -
  from assms(1) have asc: "handleSort c initialSortState
      = \<lparr>sortKey = Some (key c), sortOrder = Some Asc\<rparr>"
    by (simp add: handleSort_def initialSortState_def)
  from assms(1) have desc: "handleSort c \<lparr>sortKey = Some (key c), sortOrder = Some Asc\<rparr>
      = \<lparr>sortKey = Some (key c), sortOrder = Some Desc\<rparr>"
    by (simp add: handleSort_def)
  from assms(5) have "consistent (comparator lc lt c (Some Desc)) (h ! data p)"
    by (simp add: comparator_desc negated_consistent)
  with assms(2,3,5)
  have "displayed eng lc lt h p \<lparr>sortKey = Some (key c), sortOrder = Some Asc\<rparr>
      = stable_insertion (comparator lc lt c (Some Asc)) (h ! data p)"
    and "displayed eng lc lt h p \<lparr>sortKey = Some (key c), sortOrder = Some Desc\<rparr>
      = stable_insertion (\<lambda>a b. - comparator lc lt c (Some Asc) a b) (h ! data p)"
    by (simp_all add: displayed_eq falsy_key_def array_sort_consistent)
      (simp add: comparator_desc)
  then show ?thesis
    using descending_is_reverse [OF assms(4,5)] by (simp add: asc desc)
qed

text \<open>
  Claim C6: without ties, the view sorted ascending on a sortable column and the view sorted
  descending on it are reverses of each other. This holds of the sort, as shown above, but
  the code breaks it for a sortable column whose key is the empty string. The click handler
  takes that key for the active key, so one click gives the ascending and two clicks give
  the descending state; the sorted view takes it for no key (\<^verbatim>\<open>!sortState.key\<close>) and
  returns the data unsorted both times.
\<close>

theorem empty_key_never_sorts:
  assumes "sortable c = Some True" and "key c = []"
  shows "handleSort c initialSortState = \<lparr>sortKey = Some [], sortOrder = Some Asc\<rparr>
     \<and> handleSort c (handleSort c initialSortState) = \<lparr>sortKey = Some [], sortOrder = Some Desc\<rparr>
     \<and> displayed eng lc lt h p (handleSort c initialSortState) = h ! data p
     \<and> displayed eng lc lt h p (handleSort c (handleSort c initialSortState)) = h ! data p"
  using assms
  by (simp add: displayed_eq handleSort_def initialSortState_def falsy_key_def)

text \<open>
  On the example table with that column the ages are pairwise distinct and the comparator
  has no ties and is consistent, yet the view after two clicks is not the reverse of the
  view after one click.
\<close>

theorem empty_key_never_sorts_witness:
  "distinct (map (\<lambda>r. field r (dataIndex blankColumn)) (example_heap ! 0))
   \<and> no_ties (comparator codeunit_compare js_lessThan blankColumn (Some Asc)) (example_heap ! 0)
   \<and> consistent (comparator codeunit_compare js_lessThan blankColumn (Some Asc)) (example_heap ! 0)
   \<and> displayed stable_insertion codeunit_compare js_lessThan example_heap
        (example_props\<lparr>columns := [blankColumn]\<rparr>) (handleSort blankColumn initialSortState)
     = [bob, ana, cy]
   \<and> displayed stable_insertion codeunit_compare js_lessThan example_heap
        (example_props\<lparr>columns := [blankColumn]\<rparr>)
        (handleSort blankColumn (handleSort blankColumn initialSortState))
     = [bob, ana, cy]
   \<and> displayed stable_insertion codeunit_compare js_lessThan example_heap
        (example_props\<lparr>columns := [blankColumn]\<rparr>)
        (handleSort blankColumn (handleSort blankColumn initialSortState))
     \<noteq> rev (displayed stable_insertion codeunit_compare js_lessThan example_heap
        (example_props\<lparr>columns := [blankColumn]\<rparr>) (handleSort blankColumn initialSortState))"
proof -
  have s: "sortable blankColumn = Some True" and k: "key blankColumn = []"
    by (simp_all add: blankColumn_def)
  have d: "example_heap ! 0 = [bob, ana, cy]"
    by (simp add: example_heap_def)
  have v: "example_heap ! data (example_props\<lparr>columns := [blankColumn]\<rparr>) = [bob, ana, cy]"
    by (simp add: example_props_def example_heap_def)
  have vals: "distinct (map (\<lambda>r. field r (dataIndex blankColumn)) (example_heap ! 0))"
    by (simp add: d field_def bob_def ana_def cy_def blankColumn_def)
  have "numeric_column (dataIndex blankColumn) (example_heap ! 0)"
    by (simp add: d numeric_column_def field_def bob_def ana_def cy_def blankColumn_def)
  then have cons: "consistent (comparator codeunit_compare js_lessThan blankColumn (Some Asc))
      (example_heap ! 0)"
    by (intro numeric_column_consistent js_lessThan_orders_numbers)
  have ties: "no_ties (comparator codeunit_compare js_lessThan blankColumn (Some Asc))
      (example_heap ! 0)"
    by (simp add: d no_ties_def comparator_def Let_def field_def bob_def ana_def cy_def
        blankColumn_def nullish_def strict_eq_def js_lessThan_def)
  note e = empty_key_never_sorts [OF s k, of stable_insertion codeunit_compare js_lessThan
      example_heap "example_props\<lparr>columns := [blankColumn]\<rparr>", unfolded v]
  from e have one: "displayed stable_insertion codeunit_compare js_lessThan example_heap
        (example_props\<lparr>columns := [blankColumn]\<rparr>) (handleSort blankColumn initialSortState)
     = [bob, ana, cy]"
    and two: "displayed stable_insertion codeunit_compare js_lessThan example_heap
        (example_props\<lparr>columns := [blankColumn]\<rparr>)
        (handleSort blankColumn (handleSort blankColumn initialSortState))
     = [bob, ana, cy]"
    by blast+
  have "[bob, ana, cy] \<noteq> rev [bob, ana, cy]"
    by (simp add: bob_def cy_def)
  with one two have "displayed stable_insertion codeunit_compare js_lessThan example_heap
        (example_props\<lparr>columns := [blankColumn]\<rparr>)
        (handleSort blankColumn (handleSort blankColumn initialSortState))
     \<noteq> rev (displayed stable_insertion codeunit_compare js_lessThan example_heap
        (example_props\<lparr>columns := [blankColumn]\<rparr>) (handleSort blankColumn initialSortState))"
    by (simp only:) simp
  with vals ties cons one two show ?thesis
    by (intro conjI)
qed

end
